theory Spec2Isabelle
  imports Main "HOL-Library.Word"
begin

section \<open>Machine types and configuration constants\<close>

text \<open>
  The monitor runs on an ATmega328P: addresses and the values returned by the input
  routines are 16-bit (\<open>uint16_t\<close>), memory cells and registers are 8-bit
  (\<open>uint8_t\<close>), the millisecond clock is 32-bit (\<open>uint32_t\<close>). Arithmetic
  on these types wraps around, as the word types do.
\<close>

type_synonym u8 = "8 word"
type_synonym u16 = "16 word"
type_synonym u32 = "32 word"

definition SRAM_START :: u16 where "SRAM_START = 0x0100"
definition SRAM_END :: u16 where "SRAM_END = 0x08FF"
definition FLASH_END :: u16 where "FLASH_END = 0x7FFF"
definition IO_START :: u16 where "IO_START = 0x0020"
definition IO_END :: u16 where "IO_END = 0x00FF"

definition INPUT_TIMEOUT_MS :: u32 where "INPUT_TIMEOUT_MS = 15000"
definition INPUT_TIMEOUT_SENTINEL :: u16 where "INPUT_TIMEOUT_SENTINEL = 0xFFFF"

text \<open>
  \<open>SREG_BUFFER_INDEX\<close> comes from the header \<open>src/asm_defs.h\<close>, which the
  sketch includes; the repository's analysis report gives its value as 32 (the slot
  after r0..r31).
\<close>

definition SREG_BUFFER_INDEX :: nat where "SREG_BUFFER_INDEX = 32"

subsection \<open>Address predicates\<close>

definition isValidSRAMAddress :: "u16 \<Rightarrow> bool" where
  "isValidSRAMAddress addr = (addr \<ge> SRAM_START \<and> addr \<le> SRAM_END)"

definition isValidFlashAddress :: "u16 \<Rightarrow> bool" where
  "isValidFlashAddress addr = (addr \<le> FLASH_END)"

definition isIOAddress :: "u16 \<Rightarrow> bool" where
  "isIOAddress addr = (addr \<ge> IO_START \<and> addr < SRAM_START)"

section \<open>Characters and the C library routines the sketch calls\<close>

definition NUL :: char where "NUL = CHR 0x00"
definition LF :: char where "LF = CHR 0x0A"
definition CR :: char where "CR = CHR 0x0D"
definition BS :: char where "BS = CHR 0x08"
definition DEL :: char where "DEL = CHR 0x7F"

definition isdigit :: "char \<Rightarrow> bool" where
  "isdigit c = (c \<in> set ''0123456789'')"

definition isxdigit :: "char \<Rightarrow> bool" where
  "isxdigit c = (c \<in> set ''0123456789abcdefABCDEF'')"

definition digit_value :: "char \<Rightarrow> nat" where
  "digit_value c =
     (if isdigit c then of_char c - 48
      else if c \<in> set ''abcdef'' then of_char c - 87
      else of_char c - 55)"

text \<open>
  \<open>strtol(s, NULL, base)\<close> for base 10 or 16 on a string that starts with a digit:
  it consumes digits of the base up to the first other character (the terminating
  null included) and saturates at \<open>LONG_MAX\<close>; \<open>long\<close> has 32 bits on this
  target. Leading white space, a sign and a \<open>0x\<close> prefix are not modelled: the
  line reader below stores digits of the base only.
\<close>

definition LONG_MAX :: int where "LONG_MAX = 2 ^ 31 - 1"

fun strtol_digits :: "nat \<Rightarrow> nat \<Rightarrow> string \<Rightarrow> nat" where
  "strtol_digits base acc [] = acc"
| "strtol_digits base acc (c # cs) =
     (if (if base = 16 then isxdigit c else isdigit c)
      then strtol_digits base (acc * base + digit_value c) cs
      else acc)"

definition strtol :: "string \<Rightarrow> nat \<Rightarrow> int" where
  "strtol s base = min (int (strtol_digits base 0 s)) LONG_MAX"

section \<open>The line reader\<close>

text \<open>
  The environment is scripted: \<open>millis()\<close> returns the successive elements of a
  list of clock readings, and each test \<open>Serial.available()\<close> consumes one
  observation of the receive buffer, \<open>Some c\<close> when a byte is waiting (the
  \<open>Serial.read()\<close> that follows returns it) and \<open>None\<close> when it is empty.
  A run that needs an observation after the script has ended is \<open>Starved\<close>: the
  routine is still waiting. A store outside the buffer is \<open>Overrun\<close>.
\<close>

datatype fault = Starved | Overrun

text \<open>The test \<open>(isHex && isxdigit(c)) || (!isHex && isdigit(c))\<close>.\<close>

definition accepted_digit :: "bool \<Rightarrow> char \<Rightarrow> bool" where
  "accepted_digit isHex c = ((isHex \<and> isxdigit c) \<or> (\<not> isHex \<and> isdigit c))"

text \<open>
  The loop of \<open>readInputLine\<close>. Every iteration reads the clock once for the
  loop test; an iteration that received a byte and did not return reads it once more
  to restart the timer, after the byte has been dealt with. \<open>pos < maxLen - 1\<close>
  is computed in \<open>int\<close> after integer promotion.
\<close>

fun readInputLine_loop ::
  "u8 \<Rightarrow> bool \<Rightarrow> u32 \<Rightarrow> string \<Rightarrow> u8 \<Rightarrow> u32 \<Rightarrow> u32 list \<Rightarrow> char option list
    \<Rightarrow> fault + (u16 \<times> string \<times> u32 list \<times> char option list)" where
  "readInputLine_loop maxLen isHex timeout_ms buffer pos startTime [] ser = Inl Starved"
| "readInputLine_loop maxLen isHex timeout_ms buffer pos startTime (t # clk) ser =
     (if t - startTime < timeout_ms then
        (case ser of
           [] \<Rightarrow> Inl Starved
         | None # ser' \<Rightarrow>
             readInputLine_loop maxLen isHex timeout_ms buffer pos startTime clk ser'
         | Some c # ser' \<Rightarrow>
             if c = LF \<or> c = CR then
               if pos > 0 then
                 if unat pos < length buffer
                 then Inr (word_of_int (strtol (buffer[unat pos := NUL]) (if isHex then 16 else 10)),
                           buffer[unat pos := NUL], clk, ser')
                 else Inl Overrun
               else
                 (case clk of
                    [] \<Rightarrow> Inl Starved
                  | t' # clk' \<Rightarrow>
                      readInputLine_loop maxLen isHex timeout_ms buffer pos t' clk' ser')
             else if c = BS \<or> c = DEL then
               (case clk of
                  [] \<Rightarrow> Inl Starved
                | t' # clk' \<Rightarrow>
                    readInputLine_loop maxLen isHex timeout_ms buffer
                      (if pos > 0 then pos - 1 else pos) t' clk' ser')
             else if uint pos < uint maxLen - 1 then
               if accepted_digit isHex c then
                 if unat pos < length buffer then
                   (case clk of
                      [] \<Rightarrow> Inl Starved
                    | t' # clk' \<Rightarrow>
                        readInputLine_loop maxLen isHex timeout_ms
                          (buffer[unat pos := c]) (pos + 1) t' clk' ser')
                 else Inl Overrun
               else
                 (case clk of
                    [] \<Rightarrow> Inl Starved
                  | t' # clk' \<Rightarrow>
                      readInputLine_loop maxLen isHex timeout_ms buffer pos t' clk' ser')
             else
               (case clk of
                  [] \<Rightarrow> Inl Starved
                | t' # clk' \<Rightarrow>
                    readInputLine_loop maxLen isHex timeout_ms buffer pos t' clk' ser'))
      else Inr (INPUT_TIMEOUT_SENTINEL, buffer, clk, ser))"


section \<open>The register transfer routines\<close>

text \<open>
  The processor's register file: the 32 general-purpose registers r0..r31 and the
  status register.
\<close>

record cpu =
  gpr :: "u8 list"
  sreg :: u8

text \<open>
  Modelled from the spec: \<open>capture_registers\<close>, whose assembly source
  (\<open>asm_utils_fixed.S\<close>) is not among the sources; only its declaration and its
  callers are. It writes the current value of every general-purpose register and the
  status byte into the buffer at their canonical indices, register \<open>i\<close> at index
  \<open>i\<close> and the status byte at \<open>SREG_BUFFER_INDEX\<close>.
\<close>

definition capture_registers :: "cpu \<Rightarrow> u8 list \<Rightarrow> u8 list" where
  "capture_registers c buffer =
     (fold (\<lambda>i b. b[i := gpr c ! i]) [0..<32] buffer)[SREG_BUFFER_INDEX := sreg c]"


text \<open>
  Modelled from the spec: \<open>restore_and_call\<close> (same absent assembly file). Its
  inputs are a target code address and a populated snapshot buffer. It writes every
  general-purpose register and the status register back from the buffer, whatever the
  registers hold on entry, and transfers control to the target, which is expected to
  return. The code in flash is a parameter: \<open>routine a\<close> is the effect on the
  register file of calling the code at address \<open>a\<close> until it returns. The result
  is the address that received control and the register file on return.
\<close>

definition restore_and_call :: "(u16 \<Rightarrow> cpu \<Rightarrow> cpu) \<Rightarrow> u16 \<Rightarrow> u8 list \<Rightarrow> cpu \<Rightarrow> u16 \<times> cpu" where
  "restore_and_call routine address buffer c =
     (let restored = c\<lparr>gpr := map (\<lambda>i. buffer ! i) [0..<32], sreg := buffer ! SREG_BUFFER_INDEX\<rparr>
      in (address, routine address restored))"

section \<open>The monitor's state and its commands\<close>

text \<open>
  What a test harness observes of a command, in order: the answer read at a yes/no
  prompt, each byte loaded from and stored to the data address space, and each
  transfer of control to a flash address.
\<close>

datatype event = Confirm char | Load u16 u8 | Store u16 u8 | Call u16

text \<open>
  The data address space is a map from addresses to cells; a load returns what the
  cell holds. \<open>reg_file\<close> is the sketch's snapshot buffer, \<open>regs\<close> the
  processor's registers, \<open>flash_routine\<close> the code in flash.
\<close>

record world =
  clock :: "u32 list"
  serial :: "char option list"
  mem :: "u16 \<Rightarrow> u8"
  regs :: cpu
  flash_routine :: "u16 \<Rightarrow> cpu \<Rightarrow> cpu"
  reg_file :: "u8 list"
  log :: "event list"

definition readInputLine :: "string \<Rightarrow> u8 \<Rightarrow> bool \<Rightarrow> u32 \<Rightarrow> world \<Rightarrow> fault + ((u16 \<times> string) \<times> world)" where
  "readInputLine buffer maxLen isHex timeout_ms w =
     (case clock w of
        [] \<Rightarrow> Inl Starved
      | startTime # clk \<Rightarrow>
          (case readInputLine_loop maxLen isHex timeout_ms buffer 0 startTime clk (serial w) of
             Inl e \<Rightarrow> Inl e
           | Inr (v, buffer', clk', ser') \<Rightarrow> Inr ((v, buffer'), w\<lparr>clock := clk', serial := ser'\<rparr>)))"

text \<open>
  \<open>readHexInput\<close> and \<open>readDecInput\<close> pass a local array of 10 characters. Its
  initial contents are indeterminate in C; the model starts it zero-filled.
\<close>

definition readHexInput :: "world \<Rightarrow> fault + (u16 \<times> world)" where
  "readHexInput w =
     (case readInputLine (replicate 10 NUL) 10 True INPUT_TIMEOUT_MS w of
        Inl e \<Rightarrow> Inl e
      | Inr ((v, buf), w') \<Rightarrow> Inr (v, w'))"

definition readDecInput :: "world \<Rightarrow> fault + (u16 \<times> world)" where
  "readDecInput w =
     (case readInputLine (replicate 10 NUL) 10 False INPUT_TIMEOUT_MS w of
        Inl e \<Rightarrow> Inl e
      | Inr ((v, buf), w') \<Rightarrow> Inr (v, w'))"

text \<open>
  The yes/no prompts wait with \<open>while (!Serial.available());\<close> and then read one
  byte: no clock is consulted.
\<close>

fun await_byte :: "char option list \<Rightarrow> fault + (char \<times> char option list)" where
  "await_byte [] = Inl Starved"
| "await_byte (None # ser) = await_byte ser"
| "await_byte (Some c # ser) = Inr (c, ser)"

definition read_confirm :: "world \<Rightarrow> fault + (char \<times> world)" where
  "read_confirm w =
     (case await_byte (serial w) of
        Inl e \<Rightarrow> Inl e
      | Inr (c, ser) \<Rightarrow> Inr (c, w\<lparr>serial := ser, log := log w @ [Confirm c]\<rparr>))"

text \<open>How a command ended, as the message it prints tells.\<close>

datatype outcome =
    Timeout
  | Snapshot
  | InvalidIndex
  | Updated
  | Cancelled
  | Overflow
  | Dumped "u8 list"
  | NotWritable
  | Verified
  | Failed u8
  | BeyondFlash
  | Returned


subsection \<open>Command 1: read registers\<close>

definition case_1 :: "world \<Rightarrow> fault + (outcome \<times> world)" where
  "case_1 w = Inr (Snapshot, w\<lparr>reg_file := capture_registers (regs w) (reg_file w)\<rparr>)"

subsection \<open>Command 2: modify a register in the snapshot\<close>


subsection \<open>Command 3: read memory\<close>

text \<open>
  The dump loop reads \<open>ptr[i]\<close> for \<open>i = 0, ..., len - 1\<close> in increasing order
  and prints each byte.
\<close>

definition dump_memory :: "u16 \<Rightarrow> u16 \<Rightarrow> world \<Rightarrow> outcome \<times> world" where
  "dump_memory addr len w =
     (let cells = map (\<lambda>i. addr + of_nat i) [0..<unat len]
      in (Dumped (map (mem w) cells),
          w\<lparr>log := log w @ map (\<lambda>a. Load a (mem w a)) cells\<rparr>))"

text \<open>The part of the command after the address check: the length, its check, the dump.\<close>

definition read_span :: "u16 \<Rightarrow> world \<Rightarrow> fault + (outcome \<times> world)" where
  "read_span addr w =
     (case readDecInput w of
        Inl e \<Rightarrow> Inl e
      | Inr (len, w1) \<Rightarrow>
          if len = INPUT_TIMEOUT_SENTINEL then Inr (Timeout, w1)
          else if (ucast addr :: u32) + ucast len > 0xFFFF then Inr (Overflow, w1)
          else Inr (dump_memory addr len w1))"

definition case_3 :: "world \<Rightarrow> fault + (outcome \<times> world)" where
  "case_3 w =
     (case readHexInput w of
        Inl e \<Rightarrow> Inl e
      | Inr (addr, w1) \<Rightarrow>
          if addr = INPUT_TIMEOUT_SENTINEL then Inr (Timeout, w1)
          else if \<not> isValidSRAMAddress addr then
            (case read_confirm w1 of
               Inl e \<Rightarrow> Inl e
             | Inr (confirm, w2) \<Rightarrow>
                 if confirm \<noteq> CHR ''y'' \<and> confirm \<noteq> CHR ''Y'' then Inr (Cancelled, w2)
                 else read_span addr w2)
          else read_span addr w1)"

subsection \<open>Command 4: write memory\<close>

definition verify_report :: "u8 \<Rightarrow> u8 \<Rightarrow> outcome" where
  "verify_report readback val = (if readback = val then Verified else Failed readback)"

definition write_and_verify :: "u16 \<Rightarrow> u8 \<Rightarrow> world \<Rightarrow> outcome \<times> world" where
  "write_and_verify addr val w =
     (let w' = w\<lparr>mem := (mem w)(addr := val), log := log w @ [Store addr val]\<rparr>;
          readback = mem w' addr
      in (verify_report readback val, w'\<lparr>log := log w' @ [Load addr readback]\<rparr>))"

text \<open>The part of the command after the address check: the value, the store, the read-back.\<close>

definition write_value :: "u16 \<Rightarrow> world \<Rightarrow> fault + (outcome \<times> world)" where
  "write_value addr w =
     (case readHexInput w of
        Inl e \<Rightarrow> Inl e
      | Inr (val_read, w1) \<Rightarrow>
          if val_read = INPUT_TIMEOUT_SENTINEL then Inr (Timeout, w1)
          else Inr (write_and_verify addr (ucast val_read) w1))"

definition case_4 :: "world \<Rightarrow> fault + (outcome \<times> world)" where
  "case_4 w =
     (case readHexInput w of
        Inl e \<Rightarrow> Inl e
      | Inr (addr, w1) \<Rightarrow>
          if addr = INPUT_TIMEOUT_SENTINEL then Inr (Timeout, w1)
          else if \<not> isValidSRAMAddress addr then
            (if isIOAddress addr then
               (case read_confirm w1 of
                  Inl e \<Rightarrow> Inl e
                | Inr (confirm, w2) \<Rightarrow>
                    if confirm \<noteq> CHR ''y'' \<and> confirm \<noteq> CHR ''Y'' then Inr (Cancelled, w2)
                    else write_value addr w2)
             else Inr (NotWritable, w1))
          else write_value addr w1)"

subsection \<open>Command 5: call a flash address\<close>



section \<open>Regions and decisions, as the commands take them\<close>

text \<open>
  The sketch has no separate validator: each command tests the address it was given.
  \<open>classify\<close> names the three-way branch of the write command (SRAM, I/O space,
  anything else), and \<open>authorize\<close> the decision each command's tests amount to.
\<close>

datatype region = DataMemory | IORegisters | OutOfRange

datatype decision = Allow | AllowWithConfirmation | Deny

datatype operation = ReadOp | WriteOp

definition classify :: "u16 \<Rightarrow> region" where
  "classify addr =
     (if isValidSRAMAddress addr then DataMemory
      else if isIOAddress addr then IORegisters
      else OutOfRange)"

fun authorize :: "u16 \<Rightarrow> operation \<Rightarrow> decision" where
  "authorize addr ReadOp =
     (if \<not> isValidSRAMAddress addr then AllowWithConfirmation else Allow)"
| "authorize addr WriteOp =
     (if \<not> isValidSRAMAddress addr
      then (if isIOAddress addr then AllowWithConfirmation else Deny)
      else Allow)"

text \<open>
  What a decision means for a command that goes on with \<open>perform\<close>: allowed, it
  goes on; allowed with confirmation, it asks and goes on after \<open>y\<close> or \<open>Y\<close>
  only; denied, it stops with \<open>NotWritable\<close>.
\<close>

fun gated :: "decision \<Rightarrow> (world \<Rightarrow> fault + (outcome \<times> world)) \<Rightarrow> world \<Rightarrow> fault + (outcome \<times> world)" where
  "gated Allow perform w = perform w"
| "gated AllowWithConfirmation perform w =
     (case read_confirm w of
        Inl e \<Rightarrow> Inl e
      | Inr (confirm, w') \<Rightarrow>
          if confirm = CHR ''y'' \<or> confirm = CHR ''Y'' then perform w' else Inr (Cancelled, w'))"
| "gated Deny perform w = Inr (NotWritable, w)"


fun stored :: "event list \<Rightarrow> (u16 \<times> u8) list" where
  "stored [] = []"
| "stored (Store a v # es) = (a, v) # stored es"
| "stored (e # es) = stored es"


section \<open>Auxiliary notions for the proofs\<close>

text \<open>
  What the line reader may do to its buffer: it keeps the length, and a slot either
  keeps its contents, or holds the terminating null, or holds an accepted digit, the
  latter only at an index below \<open>maxLen - 1\<close>.
\<close>

definition stores_ok :: "u8 \<Rightarrow> bool \<Rightarrow> string \<Rightarrow> string \<Rightarrow> bool" where
  "stores_ok maxLen isHex buffer buffer' =
     (length buffer' = length buffer \<and>
      (\<forall>i<length buffer.
         buffer' ! i = buffer ! i \<or> buffer' ! i = NUL \<or>
         (accepted_digit isHex (buffer' ! i) \<and> Suc i < unat maxLen)))"

definition line_ok ::
  "u8 \<Rightarrow> bool \<Rightarrow> string \<Rightarrow> fault + (u16 \<times> string \<times> u32 list \<times> char option list) \<Rightarrow> bool" where
  "line_ok maxLen isHex buffer r =
     (case r of
        Inl e \<Rightarrow> e = Starved
      | Inr (v, buffer', clk', ser') \<Rightarrow> stores_ok maxLen isHex buffer buffer')"

text \<open>
  A bench for running the commands on a scripted session: the given clock readings
  and receive-buffer observations, memory and registers cleared, and flash routines
  that return at once.
\<close>

definition bench :: "u32 list \<Rightarrow> char option list \<Rightarrow> world" where
  "bench clk ser =
     \<lparr>clock = clk, serial = ser, mem = (\<lambda>a. 0),
      regs = \<lparr>gpr = replicate 32 0, sreg = 0\<rparr>,
      flash_routine = (\<lambda>a c. c), reg_file = replicate 64 0, log = []\<rparr>"

definition typed :: "string \<Rightarrow> char option list" where
  "typed s = map Some s"

section \<open>Properties of the register transfer routines\<close>

lemma length_fold_update: "length (fold (\<lambda>i b. b[i := f i]) is buffer) = length buffer"
  by (induction "is" arbitrary: buffer) auto

lemma nth_fold_update:
  "j < length buffer \<Longrightarrow>
   fold (\<lambda>i b. b[i := f i]) is buffer ! j = (if j \<in> set is then f j else buffer ! j)"
  by (induction "is" arbitrary: buffer) (auto simp: length_fold_update)

lemma length_capture_registers: "length (capture_registers c buffer) = length buffer"
  by (simp add: capture_registers_def length_fold_update)

lemma nth_capture_registers_gpr:
  "i < 32 \<Longrightarrow> 33 \<le> length buffer \<Longrightarrow> capture_registers c buffer ! i = gpr c ! i"
  by (simp add: capture_registers_def SREG_BUFFER_INDEX_def nth_fold_update length_fold_update)

lemma nth_capture_registers_sreg:
  "33 \<le> length buffer \<Longrightarrow> capture_registers c buffer ! SREG_BUFFER_INDEX = sreg c"
  by (simp add: capture_registers_def SREG_BUFFER_INDEX_def length_fold_update)

lemma nth_capture_registers_rest:
  "33 \<le> i \<Longrightarrow> i < length buffer \<Longrightarrow> capture_registers c buffer ! i = buffer ! i"
  by (simp add: capture_registers_def SREG_BUFFER_INDEX_def nth_fold_update length_fold_update)

text \<open>
  Claim C1. Capturing the registers into a snapshot buffer and then restoring them
  with \<open>restore_and_call\<close>, for a target that does nothing and returns, leaves the
  register file as it was before the capture: all 32 general-purpose registers and
  the status register. The registers may hold anything when the restore is entered
  (the call itself loads its arguments into registers); the buffer has room for the
  33 slots.
\<close>

theorem capture_then_restore_and_call_identity:
  assumes "length (gpr c) = 32" and "33 \<le> length buffer"
    and "routine address = (\<lambda>s. s)"
  shows "snd (restore_and_call routine address (capture_registers c buffer) c') = c"
proof -
  have "map (\<lambda>i. capture_registers c buffer ! i) [0..<32] = gpr c"
    using assms(1,2) by (intro nth_equalityI) (simp_all add: nth_capture_registers_gpr)
  moreover have "capture_registers c buffer ! SREG_BUFFER_INDEX = sreg c"
    using assms(2) by (rule nth_capture_registers_sreg)
  ultimately show ?thesis
    using assms(3) by (simp add: restore_and_call_def Let_def)
qed

theorem capture_then_restore_and_call_identity_witness:
  "length (gpr \<lparr>gpr = map of_nat [0..<32], sreg = 0x80\<rparr>) = 32 \<and>
   33 \<le> length (replicate 64 (0 :: u8)) \<and>
   \<lparr>gpr = replicate 32 0xFF, sreg = 0x01\<rparr> \<noteq> \<lparr>gpr = map of_nat [0..<32], sreg = 0x80\<rparr> \<and>
   snd (restore_and_call (\<lambda>a s. s) 0x0200
          (capture_registers \<lparr>gpr = map of_nat [0..<32], sreg = 0x80\<rparr> (replicate 64 0))
          \<lparr>gpr = replicate 32 0xFF, sreg = 0x01\<rparr>)
     = \<lparr>gpr = map of_nat [0..<32], sreg = 0x80\<rparr>"
  using capture_then_restore_and_call_identity
          [of "\<lparr>gpr = map of_nat [0..<32], sreg = 0x80\<rparr>" "replicate 64 0" "\<lambda>a s. s" "0x0200"
              "\<lparr>gpr = replicate 32 0xFF, sreg = 0x01\<rparr>"]
  by simp

section \<open>Properties of the line reader\<close>

lemma uint_pos_room:
  fixes pos maxLen :: u8
  assumes "uint pos < uint maxLen - 1"
  shows "unat (pos + 1) = Suc (unat pos) \<and> Suc (unat pos) < unat maxLen"
proof -
  have a: "uint pos = int (unat pos)" "uint maxLen = int (unat maxLen)"
    by (simp_all only: uint_nat)
  have b: "unat maxLen < 256"
    using unsigned_less [of maxLen, where ?'a = nat] by simp
  from assms a b have c: "Suc (unat pos) < unat maxLen" "unat pos + 1 < 256"
    by linarith+
  have "unat pos + unat (1 :: u8) < 2 ^ LENGTH(8)"
    using c(2) by simp
  then have "unat (pos + 1) = unat pos + unat (1 :: u8)"
    by (simp only: unat_add_lem [THEN iffD1])
  with c(1) show ?thesis by simp
qed

lemma unat_pos_back:
  fixes pos :: u8
  assumes "0 < pos"
  shows "unat (pos - 1) = unat pos - 1"
  using assms by (simp add: unat_minus_one word_neq_0_conv)

lemma stores_ok_refl: "stores_ok maxLen isHex buffer buffer"
  by (simp add: stores_ok_def)

lemma stores_ok_null: "stores_ok maxLen isHex buffer (buffer[p := NUL])"
  by (cases "p < length buffer") (auto simp: stores_ok_def nth_list_update)

lemma stores_ok_digit:
  assumes "stores_ok maxLen isHex (buffer[p := c]) buffer'"
    and "accepted_digit isHex c" and "Suc p < unat maxLen"
  shows "stores_ok maxLen isHex buffer buffer'"
  unfolding stores_ok_def
proof (intro conjI allI impI)
  show "length buffer' = length buffer"
    using assms(1) by (simp add: stores_ok_def)
next
  fix i assume i: "i < length buffer"
  have *: "buffer' ! i = buffer[p := c] ! i \<or> buffer' ! i = NUL \<or>
        (accepted_digit isHex (buffer' ! i) \<and> Suc i < unat maxLen)"
    using assms(1) i by (simp add: stores_ok_def)
  show "buffer' ! i = buffer ! i \<or> buffer' ! i = NUL \<or>
        (accepted_digit isHex (buffer' ! i) \<and> Suc i < unat maxLen)"
  proof (cases "i = p")
    case True
    with * i assms(2,3) show ?thesis by auto
  next
    case False
    with * show ?thesis by simp
  qed
qed

lemma line_ok_digit:
  "line_ok maxLen isHex (buffer[p := c]) r \<Longrightarrow> accepted_digit isHex c \<Longrightarrow> Suc p < unat maxLen
   \<Longrightarrow> line_ok maxLen isHex buffer r"
  by (auto simp: line_ok_def split: sum.splits intro: stores_ok_digit)

lemma loop_line_ok:
  assumes "length buffer = unat maxLen" and "pos = 0 \<or> unat pos < unat maxLen"
  shows "line_ok maxLen isHex buffer
           (readInputLine_loop maxLen isHex timeout_ms buffer pos startTime clk ser)"
  using assms
proof (induction maxLen isHex timeout_ms buffer pos startTime clk ser
       rule: readInputLine_loop.induct)
  case (1 maxLen isHex timeout_ms buffer pos startTime ser)
  then show ?case by (simp add: line_ok_def)
next
  case (2 maxLen isHex timeout_ms buffer pos startTime t clk ser)
  show ?case
  proof (cases "t - startTime < timeout_ms")
    case False
    then show ?thesis by (simp add: line_ok_def stores_ok_refl)
  next
    case live: True
    show ?thesis
    proof (cases ser)
      case Nil
      with live show ?thesis by (simp add: line_ok_def)
    next
      case (Cons ob ser')
      show ?thesis
      proof (cases ob)
        case None
        with live Cons 2 show ?thesis by simp
      next
        case (Some c)
        show ?thesis
        proof (cases "c = LF \<or> c = CR")
          case True
          show ?thesis
          proof (cases "0 < pos")
            case True
            with \<open>c = LF \<or> c = CR\<close> live Cons Some "2.prems" show ?thesis
              by (auto simp: line_ok_def stores_ok_null)
          next
            case False
            with \<open>c = LF \<or> c = CR\<close> live Cons Some 2 show ?thesis
              by (auto split: list.splits simp: line_ok_def)
          qed
        next
          case noeol: False
          show ?thesis
          proof (cases "c = BS \<or> c = DEL")
            case True
            have "(if 0 < pos then pos - 1 else pos) = 0 \<or>
                  unat (if 0 < pos then pos - 1 else pos) < unat maxLen"
              using "2.prems"(2) by (auto simp: unat_pos_back)
            with live Cons Some noeol True "2.prems"(1) "2.IH"(3) show ?thesis
              by (cases clk) (simp_all add: line_ok_def)
          next
            case nobs: False
            show ?thesis
            proof (cases "uint pos < uint maxLen - 1")
              case False
              with live Cons Some noeol nobs 2 show ?thesis
                by (cases clk) (simp_all add: line_ok_def)
            next
              case room: True
              note r = uint_pos_room [OF room]
              show ?thesis
              proof (cases "accepted_digit isHex c")
                case False
                with live Cons Some noeol nobs room 2 show ?thesis
                  by (cases clk) (simp_all add: line_ok_def)
              next
                case True
                have len: "unat pos < length buffer"
                  using r "2.prems"(1) by simp
                show ?thesis
                proof (cases clk)
                  case Nil
                  with live Cons Some noeol nobs room True len show ?thesis
                    by (simp add: line_ok_def)
                next
                  case clk: (Cons t' clk')
                  have "line_ok maxLen isHex (buffer[unat pos := c])
                          (readInputLine_loop maxLen isHex timeout_ms (buffer[unat pos := c])
                             (pos + 1) t' clk' ser')"
                    using "2.IH"(4) [OF live Cons Some noeol nobs room True len clk]
                      "2.prems"(1) r by simp
                  then have "line_ok maxLen isHex buffer
                          (readInputLine_loop maxLen isHex timeout_ms (buffer[unat pos := c])
                             (pos + 1) t' clk' ser')"
                    by (rule line_ok_digit) (use True r in simp_all)
                  with live Cons Some noeol nobs room True len clk show ?thesis by simp
                qed
              qed
            qed
          qed
        qed
      qed
    qed
  qed
qed

lemma rep10: "replicate 10 x = [x, x, x, x, x, x, x, x, x, x]"
  by (simp add: numeral_eq_Suc)

lemmas line_eval = readHexInput_def readDecInput_def readInputLine_def
  INPUT_TIMEOUT_MS_def INPUT_TIMEOUT_SENTINEL_def CR_def LF_def BS_def DEL_def NUL_def
  accepted_digit_def isxdigit_def isdigit_def strtol_def digit_value_def LONG_MAX_def rep10
  bench_def typed_def

text \<open>
  Claim C10. For a buffer of capacity \<open>maxLen\<close>, \<open>readInputLine\<close> never stores
  outside the buffer. Whatever it returns, the buffer has kept its length and every
  slot either holds what it held, or the terminating null, or a digit of the mode
  (hexadecimal in hex mode, decimal otherwise), and digits only at indices below
  \<open>maxLen - 1\<close>: at most \<open>maxLen - 1\<close> characters before the null. A character
  that is neither a line end, nor a backspace or delete, nor a digit of the mode is
  dropped: the loop goes on with the same buffer and position, and only the timer is
  restarted.
\<close>

theorem readInputLine_stays_in_buffer:
  assumes "length buffer = unat maxLen"
  shows "readInputLine buffer maxLen isHex timeout_ms w \<noteq> Inl Overrun \<and>
         (\<forall>v buffer' w'. readInputLine buffer maxLen isHex timeout_ms w = Inr ((v, buffer'), w') \<longrightarrow>
            length buffer' = length buffer \<and>
            (\<forall>i<length buffer.
               buffer' ! i = buffer ! i \<or> buffer' ! i = NUL \<or>
               (accepted_digit isHex (buffer' ! i) \<and> Suc i < unat maxLen))) \<and>
         (\<forall>c pos startTime t t' clk ser.
            c \<noteq> LF \<and> c \<noteq> CR \<and> c \<noteq> BS \<and> c \<noteq> DEL \<and> \<not> accepted_digit isHex c \<and>
            t - startTime < timeout_ms \<longrightarrow>
            readInputLine_loop maxLen isHex timeout_ms buffer pos startTime (t # t' # clk) (Some c # ser)
              = readInputLine_loop maxLen isHex timeout_ms buffer pos t' clk ser)"
proof (intro conjI allI impI)
  show "readInputLine buffer maxLen isHex timeout_ms w \<noteq> Inl Overrun"
  proof (cases "clock w")
    case Nil
    then show ?thesis by (simp add: readInputLine_def)
  next
    case (Cons startTime clk)
    have "line_ok maxLen isHex buffer
            (readInputLine_loop maxLen isHex timeout_ms buffer 0 startTime clk (serial w))"
      using assms by (intro loop_line_ok) simp_all
    with Cons show ?thesis
      by (auto simp: readInputLine_def line_ok_def split: sum.splits)
  qed
next
  fix v buffer' w'
  assume r: "readInputLine buffer maxLen isHex timeout_ms w = Inr ((v, buffer'), w')"
  then obtain startTime clk where clk: "clock w = startTime # clk"
    by (cases "clock w") (auto simp: readInputLine_def)
  have "line_ok maxLen isHex buffer
          (readInputLine_loop maxLen isHex timeout_ms buffer 0 startTime clk (serial w))"
    using assms by (intro loop_line_ok) simp_all
  with r clk have ok: "stores_ok maxLen isHex buffer buffer'"
    by (auto simp: readInputLine_def line_ok_def split: sum.splits)
  then show "length buffer' = length buffer"
    by (simp add: stores_ok_def)
  fix i assume "i < length buffer"
  with ok show "buffer' ! i = buffer ! i \<or> buffer' ! i = NUL \<or>
               (accepted_digit isHex (buffer' ! i) \<and> Suc i < unat maxLen)"
    by (simp add: stores_ok_def)
next
  fix c pos startTime t t' clk ser
  assume "c \<noteq> LF \<and> c \<noteq> CR \<and> c \<noteq> BS \<and> c \<noteq> DEL \<and> \<not> accepted_digit isHex c \<and>
          t - startTime < timeout_ms"
  then show "readInputLine_loop maxLen isHex timeout_ms buffer pos startTime (t # t' # clk) (Some c # ser)
              = readInputLine_loop maxLen isHex timeout_ms buffer pos t' clk ser"
    by simp
qed

theorem readInputLine_stays_in_buffer_witness:
  "length (replicate 10 NUL) = unat (10 :: u8) \<and>
   readInputLine (replicate 10 NUL) 10 True INPUT_TIMEOUT_MS
       (bench [0, 0, 0, 0, 0, 0, 0, 0] (typed (''1G2'' @ [CR]))) \<noteq> Inl Overrun \<and>
   readInputLine (replicate 10 NUL) 10 True INPUT_TIMEOUT_MS
       (bench [0, 0, 0, 0, 0, 0, 0, 0] (typed (''1G2'' @ [CR]))) =
     Inr ((0x12, [CHR ''1'', CHR ''2'', NUL, NUL, NUL, NUL, NUL, NUL, NUL, NUL]),
          bench [] [])"
proof -
  have len: "length (replicate 10 NUL) = unat (10 :: u8)" by simp
  have safe: "readInputLine (replicate 10 NUL) 10 True INPUT_TIMEOUT_MS
       (bench [0, 0, 0, 0, 0, 0, 0, 0] (typed (''1G2'' @ [CR]))) \<noteq> Inl Overrun"
    by (rule conjunct1 [OF readInputLine_stays_in_buffer [OF len]])
  have run: "readInputLine (replicate 10 NUL) 10 True INPUT_TIMEOUT_MS
       (bench [0, 0, 0, 0, 0, 0, 0, 0] (typed (''1G2'' @ [CR]))) =
     Inr ((0x12, [CHR ''1'', CHR ''2'', NUL, NUL, NUL, NUL, NUL, NUL, NUL, NUL]),
          bench [] [])"
    by (simp add: line_eval)
  from len safe run show ?thesis by (intro conjI)
qed

lemma loop_no_data_times_out:
  assumes "n < length clk" and "\<forall>i<n. clk ! i - startTime < timeout_ms"
    and "\<not> clk ! n - startTime < timeout_ms"
    and "n \<le> length ser" and "\<forall>i<n. ser ! i = None"
  shows "readInputLine_loop maxLen isHex timeout_ms buffer pos startTime clk ser =
           Inr (INPUT_TIMEOUT_SENTINEL, buffer, drop (Suc n) clk, drop n ser)"
  using assms
proof (induction n arbitrary: clk ser)
  case 0
  then obtain t clk' where "clk = t # clk'" by (cases clk) auto
  with 0 show ?case by simp
next
  case (Suc n)
  from Suc.prems(1) obtain t clk' where clk: "clk = t # clk'" by (cases clk) auto
  from Suc.prems(4) obtain ob ser' where ser: "ser = ob # ser'" by (cases ser) auto
  from Suc.prems(5) ser have ob: "ob = None" by auto
  from Suc.prems(2) clk have live: "t - startTime < timeout_ms" by auto
  have "readInputLine_loop maxLen isHex timeout_ms buffer pos startTime clk' ser' =
          Inr (INPUT_TIMEOUT_SENTINEL, buffer, drop (Suc n) clk', drop n ser')"
  proof (rule Suc.IH)
    show "n < length clk'" using Suc.prems(1) clk by simp
    show "\<forall>i<n. clk' ! i - startTime < timeout_ms"
      using Suc.prems(2) clk by auto
    show "\<not> clk' ! n - startTime < timeout_ms" using Suc.prems(3) clk by simp
    show "n \<le> length ser'" using Suc.prems(4) ser by simp
    show "\<forall>i<n. ser' ! i = None" using Suc.prems(5) ser by auto
  qed
  with clk ser ob live show ?case by simp
qed

text \<open>
  Claim C5, as amended. A line entry that receives no data returns the reserved value
  \<open>INPUT_TIMEOUT_SENTINEL\<close> at the first clock reading at which the time elapsed
  since the start has reached the timeout: with no byte in the first \<open>n\<close>
  observations of the receive buffer, and the \<open>n\<close>-th later clock reading the first
  one at which the timeout is over, the call returns there, with the buffer untouched.
  The yes/no prompts are left out.
\<close>

theorem readInputLine_times_out_without_data:
  assumes "clock w = startTime # clk"
    and "n < length clk"
    and "\<forall>i<n. clk ! i - startTime < timeout_ms"
    and "\<not> clk ! n - startTime < timeout_ms"
    and "n \<le> length (serial w)"
    and "\<forall>i<n. serial w ! i = None"
  shows "readInputLine buffer maxLen isHex timeout_ms w =
           Inr ((INPUT_TIMEOUT_SENTINEL, buffer),
                w\<lparr>clock := drop (Suc n) clk, serial := drop n (serial w)\<rparr>)"
  using assms(1) loop_no_data_times_out [OF assms(2-6)]
  by (simp add: readInputLine_def)

theorem readInputLine_times_out_without_data_witness:
  "readInputLine (replicate 10 NUL) 10 True INPUT_TIMEOUT_MS
       (bench [0, 5000, 10000, 15000, 20000] [None, None, None]) =
     Inr ((0xFFFF, replicate 10 NUL), bench [20000] [None])"
proof -
  let ?w = "bench [0, 5000, 10000, 15000, 20000] [None, None, None]"
  let ?clk = "[5000, 10000, 15000, 20000] :: u32 list"
  have 1: "clock ?w = 0 # ?clk" by (simp add: bench_def)
  have 2: "2 < length ?clk" by simp
  have 3: "\<forall>i<2. ?clk ! i - 0 < INPUT_TIMEOUT_MS"
    by (auto simp: less_2_cases_iff INPUT_TIMEOUT_MS_def)
  have 4: "\<not> ?clk ! 2 - 0 < INPUT_TIMEOUT_MS"
    by (simp add: INPUT_TIMEOUT_MS_def)
  have 5: "2 \<le> length (serial ?w)" by (simp add: bench_def)
  have 6: "\<forall>i<2. serial ?w ! i = None"
    by (auto simp: less_2_cases_iff bench_def)
  show ?thesis
    using readInputLine_times_out_without_data
            [OF 1 2 3 4 5 6, of "replicate 10 NUL" 10 True]
    by (simp add: bench_def INPUT_TIMEOUT_SENTINEL_def)
qed

text \<open>
  Claim C5 as stated fails: the sentinel is a value a completed entry can produce.
  Typing \<open>FFFF\<close> and a line end, with no time elapsed at all, returns the
  sentinel itself.
\<close>

theorem entered_FFFF_equals_sentinel:
  "readHexInput (bench [0, 0, 0, 0, 0, 0, 0, 0, 0, 0] (typed (''FFFF'' @ [CR]))) =
     Inr (INPUT_TIMEOUT_SENTINEL, bench [] [])"
  by (simp add: line_eval)

text \<open>
  The yes/no prompts consult no clock: for any stretch of observations without data
  the prompt is still waiting, whatever the time.
\<close>

lemma await_byte_no_data: "await_byte (replicate n None) = Inl Starved"
  by (induction n) simp_all

lemma read_confirm_never_times_out:
  "serial w = replicate n None \<Longrightarrow> read_confirm w = Inl Starved"
  by (simp add: read_confirm_def await_byte_no_data)

section \<open>Properties of the commands\<close>

subsection \<open>Arithmetic of the bound checks\<close>







lemma io_not_sram: "isIOAddress a \<Longrightarrow> \<not> isValidSRAMAddress a"
  by (auto simp: isIOAddress_def isValidSRAMAddress_def)

lemma io_not_sentinel: "isIOAddress a \<Longrightarrow> a \<noteq> INPUT_TIMEOUT_SENTINEL"
  by (auto simp: isIOAddress_def SRAM_START_def INPUT_TIMEOUT_SENTINEL_def)


subsection \<open>What the input routines leave untouched\<close>

lemma readInputLine_keeps:
  "readInputLine buffer maxLen isHex timeout_ms w = Inr ((v, buffer'), w') \<Longrightarrow>
   mem w' = mem w \<and> log w' = log w \<and> reg_file w' = reg_file w \<and> regs w' = regs w \<and>
   flash_routine w' = flash_routine w"
  by (auto simp: readInputLine_def split: list.splits sum.splits)

lemma readHexInput_keeps:
  "readHexInput w = Inr (v, w') \<Longrightarrow>
   mem w' = mem w \<and> log w' = log w \<and> reg_file w' = reg_file w \<and> regs w' = regs w \<and>
   flash_routine w' = flash_routine w"
  by (auto simp: readHexInput_def split: sum.splits dest: readInputLine_keeps)


lemma read_confirm_keeps:
  "read_confirm w = Inr (c, w') \<Longrightarrow>
   mem w' = mem w \<and> log w' = log w @ [Confirm c] \<and> reg_file w' = reg_file w \<and>
   regs w' = regs w \<and> flash_routine w' = flash_routine w"
  by (auto simp: read_confirm_def split: sum.splits)

lemmas cmd_eval = line_eval read_confirm_def
  isValidSRAMAddress_def isIOAddress_def isValidFlashAddress_def
  SRAM_START_def SRAM_END_def IO_START_def IO_END_def FLASH_END_def

subsection \<open>Modify register\<close>




subsection \<open>Write memory\<close>

lemma write_value_cases:
  assumes "write_value addr w = Inr (out, w')"
  shows "(out = Timeout \<and> mem w' = mem w \<and> log w' = log w) \<or>
         (\<exists>v. out = Verified \<and> mem w' = (mem w)(addr := v) \<and>
              log w' = log w @ [Store addr v, Load addr v])"
proof -
  from assms obtain val_read w1 where
    r: "readHexInput w = Inr (val_read, w1)"
    and res: "(out, w') = (if val_read = INPUT_TIMEOUT_SENTINEL then (Timeout, w1)
                           else write_and_verify addr (ucast val_read) w1)"
    by (auto simp: write_value_def split: sum.splits if_splits)
  note k = readHexInput_keeps [OF r]
  show ?thesis
  proof (cases "val_read = INPUT_TIMEOUT_SENTINEL")
    case True
    with res k show ?thesis by simp
  next
    case False
    with res k show ?thesis
      by (auto simp: write_and_verify_def verify_report_def Let_def)
  qed
qed

text \<open>
  Claim C6. For a write request whose address lies in I/O space, what the command
  adds to the log starts with the answer read at the prompt, so no store precedes it;
  a store follows only when the answer was \<open>y\<close> or \<open>Y\<close>, it is a store to the
  requested address, and memory is changed at that address only. For any other answer
  the command is cancelled, nothing is stored and memory is unchanged.
\<close>

theorem io_write_waits_for_confirmation:
  assumes "readHexInput w = Inr (addr, w1)" and "isIOAddress addr"
    and "case_4 w = Inr (out, w')"
  shows "\<exists>confirm evs.
           log w' = log w @ Confirm confirm # evs \<and>
           (confirm \<noteq> CHR ''y'' \<and> confirm \<noteq> CHR ''Y'' \<longrightarrow>
              out = Cancelled \<and> evs = [] \<and> mem w' = mem w) \<and>
           (stored evs = [] \<and> mem w' = mem w \<or>
            (confirm = CHR ''y'' \<or> confirm = CHR ''Y'') \<and>
            (\<exists>v. stored evs = [(addr, v)] \<and> mem w' = (mem w)(addr := v)))"
proof -
  note k1 = readHexInput_keeps [OF assms(1)]
  note io = io_not_sram [OF assms(2)] io_not_sentinel [OF assms(2)]
  from assms io obtain confirm w2 where
    c: "read_confirm w1 = Inr (confirm, w2)"
    and res: "(if confirm \<noteq> CHR ''y'' \<and> confirm \<noteq> CHR ''Y'' then Inr (Cancelled, w2)
               else write_value addr w2) = Inr (out, w')"
    by (auto simp: case_4_def split: sum.splits)
  note k2 = read_confirm_keeps [OF c]
  show ?thesis
  proof (cases "confirm \<noteq> CHR ''y'' \<and> confirm \<noteq> CHR ''Y''")
    case True
    with res k1 k2 show ?thesis by auto
  next
    case False
    with res have wv: "write_value addr w2 = Inr (out, w')" by simp
    from write_value_cases [OF wv] k1 k2 False show ?thesis by auto
  qed
qed

theorem io_write_waits_for_confirmation_witness:
  "isIOAddress 0x0050 \<and>
   case_4 (bench [0, 0, 0, 0, 0, 0] (typed (''50'' @ [CR] @ ''n''))) =
     Inr (Cancelled, (bench [] [])\<lparr>log := [Confirm CHR ''n'']\<rparr>) \<and>
   (\<exists>confirm evs.
      [Confirm CHR ''n''] = Confirm confirm # evs \<and> stored evs = [])"
proof -
  let ?w = "bench [0, 0, 0, 0, 0, 0] (typed (''50'' @ [CR] @ ''n''))"
  let ?w1 = "bench [] (typed ''n'')"
  let ?w' = "(bench [] [])\<lparr>log := [Confirm CHR ''n'']\<rparr>"
  have 1: "readHexInput ?w = Inr (0x0050, ?w1)" by (simp add: cmd_eval)
  have 2: "isIOAddress 0x0050" by (simp add: cmd_eval)
  have 3: "case_4 ?w = Inr (Cancelled, ?w')" by (simp add: case_4_def cmd_eval)
  from io_write_waits_for_confirmation [OF 1 2 3] 2 3 show ?thesis
    by (auto simp: bench_def)
qed

subsection \<open>Read memory\<close>






subsection \<open>The decisions the commands take\<close>

lemma case_3_follows_authorize:
  assumes "readHexInput w = Inr (addr, w1)" and "addr \<noteq> INPUT_TIMEOUT_SENTINEL"
  shows "case_3 w = gated (authorize addr ReadOp) (read_span addr) w1"
  using assms by (auto simp: case_3_def split: sum.splits)

lemma case_4_follows_authorize:
  assumes "readHexInput w = Inr (addr, w1)" and "addr \<noteq> INPUT_TIMEOUT_SENTINEL"
  shows "case_4 w = gated (authorize addr WriteOp) (write_value addr) w1"
  using assms by (auto simp: case_4_def split: sum.splits)

text \<open>
  Claim C3, as amended. For an address outside every known region (not SRAM, not I/O
  space, not below the end of flash), the classification is out-of-range. A write
  request is refused: nothing is asked and nothing is stored. A read request is not
  refused: it asks for confirmation and goes on to read after \<open>y\<close> or \<open>Y\<close>.
  (The address \<open>0xFFFF\<close> is the timeout sentinel; both commands abandon it.)
\<close>

theorem outside_regions_write_denied_read_asks:
  assumes "\<not> isValidSRAMAddress a" and "\<not> isIOAddress a" and "\<not> isValidFlashAddress a"
    and "readHexInput w = Inr (a, w1)"
  shows "classify a = OutOfRange \<and>
         authorize a WriteOp = Deny \<and>
         authorize a ReadOp = AllowWithConfirmation \<and>
         case_4 w = Inr (if a = INPUT_TIMEOUT_SENTINEL then Timeout else NotWritable, w1) \<and>
         case_3 w = (if a = INPUT_TIMEOUT_SENTINEL then Inr (Timeout, w1)
                     else gated AllowWithConfirmation (read_span a) w1)"
  using assms by (auto simp: classify_def case_3_def case_4_def split: sum.splits)

theorem outside_regions_write_denied_read_asks_witness:
  "classify 0x9000 = OutOfRange \<and>
   case_4 (bench [0, 0, 0, 0, 0, 0, 0, 0, 0, 0] (typed (''9000'' @ [CR]))) =
     Inr (NotWritable, bench [] []) \<and>
   case_3 (bench [0, 0, 0, 0, 0, 0, 0, 0, 0, 0] (typed (''9000'' @ [CR]))) =
     gated AllowWithConfirmation (read_span 0x9000) (bench [] [])"
proof -
  let ?w = "bench [0, 0, 0, 0, 0, 0, 0, 0, 0, 0] (typed (''9000'' @ [CR]))"
  have 1: "\<not> isValidSRAMAddress 0x9000" by (simp add: cmd_eval)
  have 2: "\<not> isIOAddress 0x9000" by (simp add: cmd_eval)
  have 3: "\<not> isValidFlashAddress 0x9000" by (simp add: cmd_eval)
  have 4: "readHexInput ?w = Inr (0x9000, bench [] [])" by (simp add: cmd_eval)
  from outside_regions_write_denied_read_asks [OF 1 2 3 4] show ?thesis
    by (simp add: INPUT_TIMEOUT_SENTINEL_def)
qed

text \<open>
  Claim C3 as stated fails for reads: a read at \<open>0x9000\<close>, outside every known
  region, transfers a byte once the operator has answered \<open>y\<close>.
\<close>

theorem read_outside_all_regions_proceeds:
  "\<not> isValidSRAMAddress 0x9000 \<and> \<not> isIOAddress 0x9000 \<and> \<not> isValidFlashAddress 0x9000 \<and>
   case_3 (bench [0, 0, 0, 0, 0, 0, 0, 0, 0, 0, 0, 0, 0, 0]
             (typed (''9000'' @ [CR] @ ''y'' @ ''1'' @ [CR]))) =
     Inr (Dumped [0], (bench [] [])\<lparr>log := [Confirm CHR ''y'', Load 0x9000 0]\<rparr>)"
  by (simp add: case_3_def read_span_def dump_memory_def cmd_eval upt_conv_Cons)

text \<open>
  Claim C8, as amended. With the fixed region boundaries, \<open>0x0050\<close> is in I/O
  space and needs confirmation for reads and writes; \<open>0x0200\<close> is in data memory
  and is allowed for both; \<open>0x0900\<close> is out of range, a write to it is denied, but
  a read of it is allowed after confirmation. For these three addresses the read and
  write commands behave as the decisions say.
\<close>

theorem example_addresses_decisions:
  "classify 0x0050 = IORegisters \<and>
   authorize 0x0050 ReadOp = AllowWithConfirmation \<and>
   authorize 0x0050 WriteOp = AllowWithConfirmation \<and>
   classify 0x0200 = DataMemory \<and>
   authorize 0x0200 ReadOp = Allow \<and>
   authorize 0x0200 WriteOp = Allow \<and>
   classify 0x0900 = OutOfRange \<and>
   authorize 0x0900 WriteOp = Deny \<and>
   authorize 0x0900 ReadOp = AllowWithConfirmation \<and>
   (\<forall>a w w1.
      (a = 0x0050 \<or> a = 0x0200 \<or> a = 0x0900) \<and> readHexInput w = Inr (a, w1) \<longrightarrow>
      case_3 w = gated (authorize a ReadOp) (read_span a) w1 \<and>
      case_4 w = gated (authorize a WriteOp) (write_value a) w1)"
proof -
  have ns: "a \<noteq> INPUT_TIMEOUT_SENTINEL" if "a = 0x0050 \<or> a = 0x0200 \<or> a = 0x0900" for a :: u16
    using that by (auto simp: INPUT_TIMEOUT_SENTINEL_def)
  have "case_3 w = gated (authorize a ReadOp) (read_span a) w1 \<and>
        case_4 w = gated (authorize a WriteOp) (write_value a) w1"
    if "(a = 0x0050 \<or> a = 0x0200 \<or> a = 0x0900) \<and> readHexInput w = Inr (a, w1)" for a w w1
    using that case_3_follows_authorize [of w a w1] case_4_follows_authorize [of w a w1] ns [of a]
    by blast
  then show ?thesis
    by (simp add: classify_def isValidSRAMAddress_def isIOAddress_def
        SRAM_START_def SRAM_END_def IO_START_def)
qed

theorem example_addresses_decisions_witness:
  "case_4 (bench [0, 0, 0, 0, 0, 0, 0, 0] (typed (''900'' @ [CR]))) = Inr (NotWritable, bench [] []) \<and>
   case_4 (bench [0, 0, 0, 0, 0, 0, 0, 0] (typed (''200'' @ [CR]))) = write_value 0x0200 (bench [] []) \<and>
   case_3 (bench [0, 0, 0, 0, 0, 0] (typed (''50'' @ [CR] @ ''n''))) =
     Inr (Cancelled, (bench [] [])\<lparr>log := [Confirm CHR ''n'']\<rparr>)"
proof -
  have 1: "readHexInput (bench [0, 0, 0, 0, 0, 0, 0, 0] (typed (''900'' @ [CR]))) = Inr (0x0900, bench [] [])"
    by (simp add: cmd_eval)
  have 2: "readHexInput (bench [0, 0, 0, 0, 0, 0, 0, 0] (typed (''200'' @ [CR]))) = Inr (0x0200, bench [] [])"
    by (simp add: cmd_eval)
  have 3: "readHexInput (bench [0, 0, 0, 0, 0, 0] (typed (''50'' @ [CR] @ ''n''))) = Inr (0x0050, bench [] (typed ''n''))"
    by (simp add: cmd_eval)
  note t = example_addresses_decisions
  from t 1 have a: "case_4 (bench [0, 0, 0, 0, 0, 0, 0, 0] (typed (''900'' @ [CR]))) =
      gated (authorize 0x0900 WriteOp) (write_value 0x0900) (bench [] [])"
    by blast
  from t 2 have b: "case_4 (bench [0, 0, 0, 0, 0, 0, 0, 0] (typed (''200'' @ [CR]))) =
      gated (authorize 0x0200 WriteOp) (write_value 0x0200) (bench [] [])"
    by blast
  from t 3 have c: "case_3 (bench [0, 0, 0, 0, 0, 0] (typed (''50'' @ [CR] @ ''n''))) =
      gated (authorize 0x0050 ReadOp) (read_span 0x0050) (bench [] (typed ''n''))"
    by blast
  from t have d: "authorize 0x0900 WriteOp = Deny" "authorize 0x0200 WriteOp = Allow"
    "authorize 0x0050 ReadOp = AllowWithConfirmation"
    by simp_all
  show ?thesis
    unfolding a b c d by (simp add: read_confirm_def bench_def typed_def)
qed

text \<open>
  Claim C8 as stated fails at \<open>0x0900\<close> for reads: the decision is not Deny, and
  the read transfers a byte after the answer \<open>y\<close>.
\<close>

theorem read_at_0900_proceeds_after_confirmation:
  "case_3 (bench [0, 0, 0, 0, 0, 0, 0, 0, 0, 0, 0, 0]
             (typed (''900'' @ [CR] @ ''y'' @ ''1'' @ [CR]))) =
     Inr (Dumped [0], (bench [] [])\<lparr>log := [Confirm CHR ''y'', Load 0x0900 0]\<rparr>) \<and>
   authorize 0x0900 ReadOp \<noteq> Deny"
  by (simp add: case_3_def read_span_def dump_memory_def cmd_eval upt_conv_Cons)

subsection \<open>Write, then read back\<close>



subsection \<open>Call a flash address\<close>




end
